theory Spec2Isabelle
  imports Complex_Main "HOL-Library.Word"
begin

section \<open>Exceptions and effects\<close>

text \<open>
  Python exceptions are values. A call that raises returns \<open>Inl e\<close>, a call that
  returns \<open>v\<close> gives \<open>Inr v\<close>. The string carried by an exception is its fixed message
  text; values interpolated into a message by an f-string are left out of it.
\<close>

datatype exn =
    ValueError string
  | TypeError string
  | AttributeError string
  | ZeroDivisionError
  | OverflowError
  | UnicodeEncodeError
  | UnicodeDecodeError
  | Unreachable string

section \<open>The availability sensor (src/nucypher/network/protocols.py, AvailabilitySensor)\<close>

subsection \<open>Collaborators\<close>

text \<open>
  The sensor writes to a \<open>twisted.logger.Logger\<close>. A logger is given by the names of
  the methods it offers: calling a method it does not have raises \<open>AttributeError\<close>,
  as attribute lookup on a Python object does. \<open>twisted_Logger\<close> lists the methods of
  the class that \<open>__init__\<close> instantiates.
\<close>

type_synonym logger = "string list"

definition twisted_Logger :: logger where
  "twisted_Logger = [''emit'', ''failure'', ''debug'', ''info'', ''warn'', ''error'', ''critical'']"

type_synonym peer = nat

datatype action = Mild | Medium | Severe

text \<open>
  What a round does to the outside world is kept as a list of events, in order: an
  escalation action being called, a line handed to a logger method, the peers drawn by
  \<open>random.sample\<close>, one probe of a peer.
\<close>

datatype event =
    Invoked action
  | Logged string string
  | Sampled "peer list"
  | Probed peer

text \<open>
  The environment of one call: the owning node (\<open>self._ursula\<close>: its \<open>rest_url\<close>, its
  string form, its \<open>known_nodes\<close>, its \<open>lonely\<close> flag, the status code its network
  middleware gets from a peer), the clock (\<open>maya.now().epoch\<close> as read by \<open>maintain\<close>
  and as read by \<open>record\<close>) and the choice \<open>random.sample\<close> makes.
\<close>

record env =
  rest_url :: string
  ursula_str :: string
  known_nodes :: "peer list"
  lonely :: bool
  status_code :: "peer \<Rightarrow> int"
  now :: rat
  now_record :: rat
  pick :: "peer list \<Rightarrow> nat \<Rightarrow> peer list"

subsection \<open>State\<close>

text \<open>
  \<open>warnings\<close> is a Python dict: an association list in insertion order. \<open>records\<close> is the
  \<open>deque(maxlen=retention)\<close> of \<open>Record(time, result)\<close> tuples, oldest first.
\<close>

record sensor =
  log' :: logger
  interval :: int
  sample_size :: int
  sensitivity :: int
  retention :: int
  warnings :: "(int \<times> action) list"
  records :: "(rat \<times> bool) list"
  start_time :: "rat option"
  running :: bool

definition DEFAULT_INTERVAL :: int where "DEFAULT_INTERVAL = 60 * 2"
definition DEFAULT_SAMPLE_SIZE :: int where "DEFAULT_SAMPLE_SIZE = 3"
definition DEFAULT_SENSITIVITY :: int where "DEFAULT_SENSITIVITY = 2"
definition DEFAULT_RETENTION :: int where "DEFAULT_RETENTION = 10"
definition MAXIMUM_ALONE_TIME :: rat where "MAXIMUM_ALONE_TIME = 60 * 2"

text \<open>
  Storing under a key of a dict: a key already present keeps its place and takes the new
  value, a new key goes to the end. A dict display \<open>{k1: v1, k2: v2, k3: v3}\<close> stores its
  items from left to right.
\<close>

fun dict_set :: "'k \<Rightarrow> 'v \<Rightarrow> ('k \<times> 'v) list \<Rightarrow> ('k \<times> 'v) list" where
  "dict_set k v [] = [(k, v)]"
| "dict_set k v ((k', v') # d) = (if k' = k then (k, v) # d else (k', v') # dict_set k v d)"

definition new_sensor :: "int \<Rightarrow> int \<Rightarrow> int \<Rightarrow> int \<Rightarrow> sensor" where
  "new_sensor interval0 sample_size0 sensitivity0 retention0 =
     \<lparr> log' = twisted_Logger,
       interval = interval0,
       sample_size = sample_size0,
       sensitivity = sensitivity0,
       retention = retention0,
       warnings = dict_set retention0 Severe
                    (dict_set (retention0 div 2) Medium
                      (dict_set 1 Mild [])),
       records = [],
       start_time = None,
       running = False \<rparr>"

text \<open>\<open>__init__\<close>: \<open>deque(maxlen=retention)\<close> refuses a negative length.\<close>

definition init :: "int \<Rightarrow> int \<Rightarrow> int \<Rightarrow> int \<Rightarrow> exn + sensor" where
  "init interval0 sample_size0 sensitivity0 retention0 =
     (if retention0 < 0 then Inl (ValueError ''maxlen must be non-negative'')
      else Inr (new_sensor interval0 sample_size0 sensitivity0 retention0))"

text \<open>\<open>start\<close>, as far as the sensor's own fields go (the periodic task is not modelled).\<close>

definition start :: "rat \<Rightarrow> sensor \<Rightarrow> sensor" where
  "start t s = (if \<not> running s then s\<lparr>start_time := Some t, running := True\<rparr> else s)"

subsection \<open>Escalation actions\<close>

definition log_call :: "logger \<Rightarrow> string \<Rightarrow> string \<Rightarrow> event list \<times> (exn + unit)" where
  "log_call lg method msg =
     (if method \<in> set lg then ([Logged method msg], Inr ())
      else ([], Inl (AttributeError method)))"

definition mild_warning :: "env \<Rightarrow> sensor \<Rightarrow> event list \<times> (exn + unit)" where
  "mild_warning w s = log_call (log' s) ''info'' (rest_url w @ '' is unreachable'')"

definition medium_warning :: "env \<Rightarrow> sensor \<Rightarrow> event list \<times> (exn + unit)" where
  "medium_warning w s = log_call (log' s) ''warning'' (rest_url w @ '' is unreachable'')"

definition severe_warning :: "env \<Rightarrow> sensor \<Rightarrow> event list \<times> (exn + unit)" where
  "severe_warning w s =
     (case log_call (log' s) ''critial'' (rest_url w @ '' is unreachable'') of
        (evs, Inl e) \<Rightarrow> (evs, Inl e)
      | (evs, Inr u) \<Rightarrow> (evs, Inl (Unreachable (ursula_str w @ '' is unreachable.''))))"

text \<open>Calling the bound method stored in the dict; the call itself is an event.\<close>

definition invoke :: "action \<Rightarrow> env \<Rightarrow> sensor \<Rightarrow> event list \<times> (exn + unit)" where
  "invoke a w s =
     (case (case a of Mild \<Rightarrow> mild_warning w s
                    | Medium \<Rightarrow> medium_warning w s
                    | Severe \<Rightarrow> severe_warning w s) of
        (evs, r) \<Rightarrow> (Invoked a # evs, r))"

subsection \<open>Window history and score\<close>

text \<open>
  \<open>deque.append\<close> on a bounded deque: the item is appended and, when the deque is then
  longer than \<open>maxlen\<close>, the leftmost item is dropped.
\<close>

definition deque_append :: "nat \<Rightarrow> 'a \<Rightarrow> 'a list \<Rightarrow> 'a list" where
  "deque_append maxlen x xs =
     (let ys = xs @ [x] in if maxlen < length ys then tl ys else ys)"

definition record' :: "rat \<Rightarrow> bool \<Rightarrow> sensor \<Rightarrow> sensor" where
  "record' t result s =
     s\<lparr>records := deque_append (nat (retention s)) (t, result) (records s)\<rparr>"

text \<open>
  \<open>score\<close>: the division is Python's true division, taken here as the exact quotient;
  a zero \<open>retention\<close> raises.
\<close>

definition score :: "sensor \<Rightarrow> exn + rat" where
  "score s =
     (let failed_records = map snd (filter snd (records s)) in
      if retention s = 0 then Inl ZeroDivisionError
      else Inr (of_nat (length failed_records) / of_int (retention s)))"

fun issue_loop :: "env \<Rightarrow> sensor \<Rightarrow> (int \<times> action) list \<Rightarrow> event list \<times> (exn + unit)" where
  "issue_loop w s [] = ([], Inr ())"
| "issue_loop w s ((threshold, a) # rest) =
     (case score s of
        Inl e \<Rightarrow> ([], Inl e)
      | Inr sc \<Rightarrow>
          if of_int threshold \<le> sc then
            (case invoke a w s of
               (evs, Inl e) \<Rightarrow> (evs, Inl e)
             | (evs, Inr u) \<Rightarrow>
                 (case issue_loop w s rest of (evs', r) \<Rightarrow> (evs @ evs', r)))
          else issue_loop w s rest)"

definition issue_warnings :: "env \<Rightarrow> sensor \<Rightarrow> event list \<times> (exn + unit)" where
  "issue_warnings w s = issue_loop w s (warnings s)"

subsection \<open>Measurement round\<close>

text \<open>\<open>random.sample\<close> refuses a negative size and a size above the population.\<close>

definition sample :: "env \<Rightarrow> int \<Rightarrow> exn + peer list" where
  "sample w quantity =
     (if quantity < 0 \<or> int (length (known_nodes w)) < quantity
      then Inl (ValueError ''Sample larger than population or is negative'')
      else Inr (pick w (known_nodes w) (nat quantity)))"

fun probe_loop :: "env \<Rightarrow> peer list \<Rightarrow> int \<times> int \<Rightarrow> event list \<times> (int \<times> int)" where
  "probe_loop w [] (succeeded, failed) = ([], (succeeded, failed))"
| "probe_loop w (ursula # ursulas) (succeeded, failed) =
     (case probe_loop w ursulas
             (if status_code w ursula = 200 then (succeeded + 1, failed)
              else (succeeded, failed + 1)) of
        (evs, r) \<Rightarrow> (Probed ursula # evs, r))"

definition measure' :: "env \<Rightarrow> sensor \<Rightarrow> event list \<times> (exn + bool)" where
  "measure' w s =
     (if sample_size s < sensitivity s
      then ([], Inl (ValueError ''Threshold cannot be greater then the sample size.''))
      else
        (case sample w (sample_size s) of
           Inl e \<Rightarrow> ([], Inl e)
         | Inr ursulas \<Rightarrow>
             (case probe_loop w ursulas (0, 0) of
                (evs, (succeeded, failed)) \<Rightarrow>
                  (Sampled ursulas # evs, Inr (sensitivity s \<le> failed)))))"

subsection \<open>One maintenance round\<close>

text \<open>
  The branch of \<open>maintain\<close> taken when there are no known nodes. \<open>__start_time\<close> is
  \<open>None\<close> until \<open>start\<close> has run, and subtracting \<open>None\<close> from a number raises.
\<close>

definition alone_round :: "env \<Rightarrow> sensor \<Rightarrow> sensor \<times> event list \<times> (exn + unit)" where
  "alone_round w s =
     (if \<not> lonely w then
        (case start_time s of
           None \<Rightarrow> (s, [], Inl (TypeError ''unsupported operand type(s) for -''))
         | Some t0 \<Rightarrow>
             (let delta = now w - t0 in
              if MAXIMUM_ALONE_TIME \<le> delta then
                (case invoke Severe w s of
                   (evs, Inl e) \<Rightarrow> (s, evs, Inl e)
                 | (evs, Inr u) \<Rightarrow> (s, evs, Inr ()))
              else (s, [], Inr ())))
      else (s, [], Inr ()))"

text \<open>The rest of \<open>maintain\<close>: the population check, then measure, record, warn.\<close>

definition sampled_round :: "env \<Rightarrow> sensor \<Rightarrow> sensor \<times> event list \<times> (exn + unit)" where
  "sampled_round w s =
     (if int (length (known_nodes w)) < sample_size s then (s, [], Inr ())
      else
        (case measure' w s of
           (evs, Inl e) \<Rightarrow> (s, evs, Inl e)
         | (evs, Inr result) \<Rightarrow>
             (let s' = record' (now_record w) result s in
              case issue_warnings w s' of (evs', r) \<Rightarrow> (s', evs @ evs', r))))"

definition maintain :: "env \<Rightarrow> sensor \<Rightarrow> sensor \<times> event list \<times> (exn + unit)" where
  "maintain w s = (if known_nodes w = [] then alone_round w s else sampled_round w s)"

subsection \<open>Sequences of calls\<close>

text \<open>A run of \<open>record\<close> calls, each with the time it reads and the result it is given.\<close>

fun record_all :: "sensor \<Rightarrow> (rat \<times> bool) list \<Rightarrow> sensor" where
  "record_all s [] = s"
| "record_all s ((t, result) # rs) = record_all (record' t result s) rs"

text \<open>A node with no known peers, no probe answering 200, used for concrete runs.\<close>

definition quiet_env :: env where
  "quiet_env = \<lparr> rest_url = ''10.0.0.1:9151'', ursula_str = ''Ursula'',
                 known_nodes = [], lonely = False, status_code = (\<lambda>p. 500),
                 now = 0, now_record = 0, pick = (\<lambda>xs k. take k xs) \<rparr>"

section \<open>Peer addresses (src/nucypher/network/protocols.py, InterfaceInfo)\<close>

subsection \<open>Python strings and bytes\<close>

text \<open>
  A Python \<open>str\<close> is a list of code points, a \<open>bytes\<close> value a list of 8-bit words.
  \<open>str_lit\<close> reads a literal of the source.
\<close>

type_synonym str = "nat list"
type_synonym byte = "8 word"

definition str_lit :: "string \<Rightarrow> str" where
  "str_lit cs = map of_char cs"

definition COLON :: byte where "COLON = 58"

text \<open>
  \<open>bytes(s, encoding="utf-8")\<close>: one to four bytes per code point; the surrogates
  \<open>D800..DFFF\<close> and anything from \<open>110000\<close> on cannot be encoded.
\<close>

definition utf8_encode_cp :: "nat \<Rightarrow> byte list option" where
  "utf8_encode_cp c =
     (if c < 0x80 then Some [of_nat c]
      else if c < 0x800 then Some [of_nat (0xC0 + c div 64), of_nat (0x80 + c mod 64)]
      else if 0xD800 \<le> c \<and> c < 0xE000 then None
      else if c < 0x10000 then
        Some [of_nat (0xE0 + c div 4096), of_nat (0x80 + c div 64 mod 64),
              of_nat (0x80 + c mod 64)]
      else if c < 0x110000 then
        Some [of_nat (0xF0 + c div 262144), of_nat (0x80 + c div 4096 mod 64),
              of_nat (0x80 + c div 64 mod 64), of_nat (0x80 + c mod 64)]
      else None)"

fun utf8_encode :: "str \<Rightarrow> exn + byte list" where
  "utf8_encode [] = Inr []"
| "utf8_encode (c # cs) =
     (case utf8_encode_cp c of
        None \<Rightarrow> Inl UnicodeEncodeError
      | Some bs \<Rightarrow> (case utf8_encode cs of Inl e \<Rightarrow> Inl e | Inr r \<Rightarrow> Inr (bs @ r)))"

text \<open>
  \<open>b.decode("utf-8")\<close>, strict: a lead byte fixes the length, every further byte must be a
  continuation byte \<open>80..BF\<close>, and overlong forms, surrogates and values from \<open>110000\<close>
  on are refused.
\<close>

definition is_cont :: "byte \<Rightarrow> bool" where
  "is_cont b = (0x80 \<le> unat b \<and> unat b < 0xC0)"

definition cont_bits :: "byte \<Rightarrow> nat" where
  "cont_bits b = unat b - 0x80"

definition decoded :: "nat \<Rightarrow> exn + str \<Rightarrow> exn + str" where
  "decoded c r = (case r of Inl e \<Rightarrow> Inl e | Inr cs \<Rightarrow> Inr (c # cs))"

fun utf8_decode :: "byte list \<Rightarrow> exn + str" where
  "utf8_decode [] = Inr []"
| "utf8_decode (b0 # bs) =
     (let n0 = unat b0 in
      if n0 < 0x80 then decoded n0 (utf8_decode bs)
      else if 0xC2 \<le> n0 \<and> n0 < 0xE0 then
        (case bs of
           b1 # rest \<Rightarrow>
             if is_cont b1
             then decoded ((n0 - 0xC0) * 64 + cont_bits b1) (utf8_decode rest)
             else Inl UnicodeDecodeError
         | _ \<Rightarrow> Inl UnicodeDecodeError)
      else if 0xE0 \<le> n0 \<and> n0 < 0xF0 then
        (case bs of
           b1 # b2 # rest \<Rightarrow>
             (let c = (n0 - 0xE0) * 4096 + cont_bits b1 * 64 + cont_bits b2 in
              if is_cont b1 \<and> is_cont b2 \<and> 0x800 \<le> c \<and> \<not> (0xD800 \<le> c \<and> c < 0xE000)
              then decoded c (utf8_decode rest)
              else Inl UnicodeDecodeError)
         | _ \<Rightarrow> Inl UnicodeDecodeError)
      else if 0xF0 \<le> n0 \<and> n0 < 0xF5 then
        (case bs of
           b1 # b2 # b3 # rest \<Rightarrow>
             (let c = (n0 - 0xF0) * 262144 + cont_bits b1 * 4096 + cont_bits b2 * 64
                        + cont_bits b3 in
              if is_cont b1 \<and> is_cont b2 \<and> is_cont b3 \<and> 0x10000 \<le> c \<and> c < 0x110000
              then decoded c (utf8_decode rest)
              else Inl UnicodeDecodeError)
         | _ \<Rightarrow> Inl UnicodeDecodeError)
      else Inl UnicodeDecodeError)"

text \<open>
  \<open>int.to_bytes(length, "big")\<close> refuses a negative number and one that does not fit;
  \<open>int.from_bytes(bs, "big")\<close> reads any number of bytes.
\<close>

fun be_bytes :: "nat \<Rightarrow> nat \<Rightarrow> byte list" where
  "be_bytes 0 n = []"
| "be_bytes (Suc len) n = of_nat (n div 256 ^ len mod 256) # be_bytes len n"

definition to_bytes :: "int \<Rightarrow> nat \<Rightarrow> exn + byte list" where
  "to_bytes n len =
     (if n < 0 \<or> 256 ^ len \<le> n then Inl OverflowError else Inr (be_bytes len (nat n)))"

definition int_from_bytes :: "byte list \<Rightarrow> int" where
  "int_from_bytes bs = foldl (\<lambda>acc b. acc * 256 + int (unat b)) 0 bs"

text \<open>
  \<open>b.split(sep, 1)\<close> for a one-byte separator: the whole value when the separator does
  not occur, else what is before its first occurrence and what is after it.
\<close>

definition split1 :: "'a \<Rightarrow> 'a list \<Rightarrow> 'a list list" where
  "split1 sep bs =
     (case dropWhile (\<lambda>b. b \<noteq> sep) bs of
        [] \<Rightarrow> [bs]
      | b # rest \<Rightarrow> [takeWhile (\<lambda>b. b \<noteq> sep) bs, rest])"

subsection \<open>InterfaceInfo\<close>

record interface_info =
  host :: str
  port :: int

text \<open>\<open>__init__\<close>; \<open>port\<close> is an \<open>int\<close> already, so \<open>int(port)\<close> is \<open>port\<close>.\<close>

definition InterfaceInfo :: "str \<Rightarrow> int \<Rightarrow> interface_info" where
  "InterfaceInfo host0 port0 =
     (let loopback = str_lit ''127.0.0.1''; localhost = str_lit ''localhost'' in
      \<lparr> host = (if host0 = localhost then loopback else host0), port = port0 \<rparr>)"

text \<open>\<open>__bytes__\<close>\<close>

definition bytes_of :: "interface_info \<Rightarrow> exn + byte list" where
  "bytes_of a =
     (case utf8_encode (host a) of
        Inl e \<Rightarrow> Inl e
      | Inr host_bytes \<Rightarrow>
          (case to_bytes (port a) 4 of
             Inl e \<Rightarrow> Inl e
           | Inr port_bytes \<Rightarrow> Inr (host_bytes @ [COLON] @ port_bytes)))"

text \<open>
  \<open>from_bytes\<close>: unpacking the split into two names raises when there is no colon.
\<close>

definition from_bytes :: "byte list \<Rightarrow> exn + interface_info" where
  "from_bytes url_string =
     (case split1 COLON url_string of
        [host_bytes, port_bytes] \<Rightarrow>
          (let port0 = int_from_bytes port_bytes in
           case utf8_decode host_bytes of
             Inl e \<Rightarrow> Inl e
           | Inr host0 \<Rightarrow> Inr (InterfaceInfo host0 port0))
      | _ \<Rightarrow> Inl (ValueError ''not enough values to unpack (expected 2, got 1)''))"

section \<open>Node locators (src/nucypher/network/protocols.py, parse_node_uri)\<close>

text \<open>
  Locators are ASCII strings. What \<open>parse_node_uri\<close> takes from outside this file is a
  parameter: the checksum test of \<open>eth_utils\<close>, the constant
  \<open>UrsulaConfiguration.DEFAULT_REST_PORT\<close> and Python's \<open>int(s, 10)\<close>, which gives no
  value where it raises \<open>ValueError\<close>.
\<close>

record deps =
  is_checksum_address :: "string \<Rightarrow> bool"
  DEFAULT_REST_PORT :: int
  int10 :: "string \<Rightarrow> int option"

subsection \<open>String methods\<close>

text \<open>\<open>s.split(sep)\<close> for a one-character separator: one more part than separators.\<close>

fun str_split :: "char \<Rightarrow> string \<Rightarrow> string list" where
  "str_split sep [] = [[]]"
| "str_split sep (c # cs) =
     (if c = sep then [] # str_split sep cs
      else (case str_split sep cs of
              part # parts \<Rightarrow> (c # part) # parts
            | [] \<Rightarrow> [[c]]))"

definition startswith :: "string \<Rightarrow> string \<Rightarrow> bool" where
  "startswith s pre = (take (length pre) s = pre)"

text \<open>\<open>s.partition(sep)\<close> and \<open>s.rpartition(sep)\<close>, at the first and at the last separator.\<close>

definition str_partition :: "char \<Rightarrow> string \<Rightarrow> string \<times> string \<times> string" where
  "str_partition sep s =
     (case dropWhile (\<lambda>c. c \<noteq> sep) s of
        [] \<Rightarrow> (s, [], [])
      | c # rest \<Rightarrow> (takeWhile (\<lambda>c. c \<noteq> sep) s, [sep], rest))"

definition str_rpartition :: "char \<Rightarrow> string \<Rightarrow> string \<times> string \<times> string" where
  "str_rpartition sep s =
     (case dropWhile (\<lambda>c. c \<noteq> sep) (rev s) of
        [] \<Rightarrow> ([], [], s)
      | c # front \<Rightarrow> (rev front, [sep], rev (takeWhile (\<lambda>c. c \<noteq> sep) (rev s))))"

text \<open>\<open>s.lower()\<close> on ASCII.\<close>

definition lower_char :: "char \<Rightarrow> char" where
  "lower_char c =
     (case map_of (zip ''ABCDEFGHIJKLMNOPQRSTUVWXYZ'' ''abcdefghijklmnopqrstuvwxyz'') c of
        None \<Rightarrow> c
      | Some l \<Rightarrow> l)"

definition str_lower :: "string \<Rightarrow> string" where
  "str_lower s = map lower_char s"

subsection \<open>urllib.parse.urlparse (Python 3.7), as far as scheme and network location\<close>

record parse_result =
  scheme :: string
  netloc :: string

definition scheme_chars :: string where
  "scheme_chars =
     ''abcdefghijklmnopqrstuvwxyzABCDEFGHIJKLMNOPQRSTUVWXYZ0123456789+-.''"

text \<open>
  The scheme is what stands before the first colon, when that is not empty, has scheme
  characters only and is not followed by a port number (digits only); \<open>http\<close> is taken
  without that last test. The network location runs from \<open>//\<close> to the first of \<open>/ ? #\<close>.
\<close>

definition split_scheme :: "string \<Rightarrow> string \<times> string" where
  "split_scheme url =
     (let pre = takeWhile (\<lambda>c. c \<noteq> CHR '':'') url in
      if CHR '':'' \<in> set url \<and> pre \<noteq> [] then
        (let rest = drop (length pre + 1) url in
         if pre = ''http'' then (''http'', rest)
         else if (\<forall>c\<in>set pre. c \<in> set scheme_chars) \<and>
                 (rest = [] \<or> (\<exists>c\<in>set rest. c \<notin> set ''0123456789''))
         then (str_lower pre, rest)
         else ([], url))
      else ([], url))"

definition splitnetloc :: "string \<Rightarrow> string" where
  "splitnetloc url = takeWhile (\<lambda>c. c \<notin> set ''/?#'') (drop 2 url)"

definition urlparse :: "string \<Rightarrow> exn + parse_result" where
  "urlparse url0 =
     (case split_scheme url0 of
        (scheme0, url) \<Rightarrow>
          (let netloc0 = (if take 2 url = ''//'' then splitnetloc url else []) in
           if (CHR ''['' \<in> set netloc0 \<and> CHR '']'' \<notin> set netloc0) \<or>
              (CHR '']'' \<in> set netloc0 \<and> CHR ''['' \<notin> set netloc0)
           then Inl (ValueError ''Invalid IPv6 URL'')
           else Inr \<lparr> scheme = scheme0, netloc = netloc0 \<rparr>))"

text \<open>The properties \<open>_hostinfo\<close>, \<open>hostname\<close> and \<open>port\<close> of a parse result.\<close>

definition hostinfo :: "parse_result \<Rightarrow> string \<times> string option" where
  "hostinfo r =
     (case str_rpartition CHR ''@'' (netloc r) of
        (u, a, hostinfo0) \<Rightarrow>
          (case str_partition CHR ''['' hostinfo0 of
             (b, have_open_br, bracketed) \<Rightarrow>
               (case (if have_open_br \<noteq> []
                      then (case str_partition CHR '']'' bracketed of
                              (hostname0, c, port0) \<Rightarrow>
                                (hostname0, snd (snd (str_partition CHR '':'' port0))))
                      else (case str_partition CHR '':'' hostinfo0 of
                              (hostname0, c, port0) \<Rightarrow> (hostname0, port0))) of
                  (hostname0, port0) \<Rightarrow>
                    (hostname0, if port0 = [] then None else Some port0))))"

definition hostname :: "parse_result \<Rightarrow> string option" where
  "hostname r =
     (let hostname0 = fst (hostinfo r) in
      if hostname0 = [] then None
      else (case str_partition CHR ''%'' hostname0 of
              (h, percent, zone) \<Rightarrow> Some (str_lower h @ percent @ zone)))"

definition port_of :: "deps \<Rightarrow> parse_result \<Rightarrow> exn + int option" where
  "port_of d r =
     (case snd (hostinfo r) of
        None \<Rightarrow> Inr None
      | Some port0 \<Rightarrow>
          (case int10 d port0 of
             None \<Rightarrow> Inl (ValueError ''invalid literal for int() with base 10'')
           | Some n \<Rightarrow>
               if \<not> (0 \<le> n \<and> n \<le> 65535) then Inl (ValueError ''Port out of range 0-65535'')
               else Inr (Some n)))"

subsection \<open>parse_node_uri\<close>

text \<open>
  The result is \<open>(hostname, port, checksum_address)\<close>. Unpacking the split at \<open>@\<close> into
  two names raises unless there are exactly two parts; a part of a split is a string, so
  the test \<open>checksum_address is None\<close> never holds and has no branch here. \<open>x or y\<close> is
  \<open>y\<close> when \<open>x\<close> is \<open>None\<close> or zero.
\<close>

definition parse_node_uri ::
    "deps \<Rightarrow> string \<Rightarrow> exn + (string option \<times> int \<times> string option)" where
  "parse_node_uri d uri0 =
     (case (if CHR ''@'' \<in> set uri0 then
              (case str_split CHR ''@'' uri0 of
                 [checksum_address, uri] \<Rightarrow>
                   if \<not> is_checksum_address d checksum_address
                   then Inl (ValueError ''is not a valid checksum address.'')
                   else Inr (Some checksum_address, uri)
               | parts \<Rightarrow> Inl (ValueError ''too many values to unpack (expected 2)''))
            else Inr (None, uri0)) of
        Inl e \<Rightarrow> Inl e
      | Inr (checksum_address, uri1) \<Rightarrow>
          (let uri = (if \<not> startswith uri1 ''https://'' then ''https://'' @ uri1 else uri1) in
           case urlparse uri of
             Inl e \<Rightarrow> Inl e
           | Inr parsed0 \<Rightarrow>
               (case (if scheme parsed0 = [] then urlparse (''https://'' @ uri)
                      else Inr parsed0) of
                  Inl e \<Rightarrow> Inl e
                | Inr parsed_uri \<Rightarrow>
                    if \<not> scheme parsed_uri = ''https''
                    then Inl (ValueError ''Invalid teacher scheme or protocol.'')
                    else
                      (case port_of d parsed_uri of
                         Inl e \<Rightarrow> Inl e
                       | Inr port0 \<Rightarrow>
                           Inr (hostname parsed_uri,
                                (case port0 of
                                   None \<Rightarrow> DEFAULT_REST_PORT d
                                 | Some n \<Rightarrow> if n = 0 then DEFAULT_REST_PORT d else n),
                                checksum_address)))))"

text \<open>
  A concrete setting for runs: port 9151, a checksum test that wants \<open>0x\<close> and forty more
  characters, and decimal digits read as a number.
\<close>

definition digit_value :: "char \<Rightarrow> int option" where
  "digit_value c = map_of (zip ''0123456789'' [0, 1, 2, 3, 4, 5, 6, 7, 8, 9]) c"

fun digits_int :: "int \<Rightarrow> string \<Rightarrow> int option" where
  "digits_int acc [] = Some acc"
| "digits_int acc (c # cs) =
     (case digit_value c of None \<Rightarrow> None | Some v \<Rightarrow> digits_int (acc * 10 + v) cs)"

definition example_deps :: deps where
  "example_deps =
     \<lparr> is_checksum_address = (\<lambda>s. take 2 s = ''0x'' \<and> length s = 42),
       DEFAULT_REST_PORT = 9151,
       int10 = (\<lambda>s. if s = [] then None else digits_int 0 s) \<rparr>"

section \<open>Properties of the availability sensor\<close>

subsection \<open>Auxiliary facts\<close>

lemma record_all_fields [simp]:
  "retention (record_all s rs) = retention s"
  "warnings (record_all s rs) = warnings s"
  "log' (record_all s rs) = log' s"
  "sample_size (record_all s rs) = sample_size s"
  "sensitivity (record_all s rs) = sensitivity s"
  "start_time (record_all s rs) = start_time s"
  by (induction s rs rule: record_all.induct) (simp_all add: record'_def)

lemma deque_append_length:
  "length xs \<le> n \<Longrightarrow> length (deque_append n x xs) \<le> n"
  by (cases xs) (auto simp: deque_append_def Let_def)

lemma record_all_bounded:
  "length (records s) \<le> nat (retention s) \<Longrightarrow>
   length (records (record_all s rs)) \<le> nat (retention s)"
proof (induction s rs rule: record_all.induct)
  case (1 s)
  then show ?case by simp
next
  case (2 s t result rs)
  have "length (records (record' t result s)) \<le> nat (retention (record' t result s))"
    using 2(2) by (simp add: record'_def deque_append_length)
  from 2(1)[OF this] show ?case by (simp add: record'_def)
qed

lemma record_all_fresh:
  "records s = [] \<Longrightarrow> length rs \<le> nat (retention s) \<Longrightarrow>
   records (record_all s rs) = rs"
proof -
  have g: "length (records s) + length rs \<le> nat (retention s) \<Longrightarrow>
        records (record_all s rs) = records s @ rs" for s rs
  proof (induction s rs rule: record_all.induct)
    case (1 s)
    then show ?case by simp
  next
    case (2 s t result rs)
    have r: "records (record' t result s) = records s @ [(t, result)]"
      using 2(2) by (simp add: record'_def deque_append_def Let_def)
    have "length (records (record' t result s)) + length rs \<le> nat (retention (record' t result s))"
      using 2(2) by (simp add: r) (simp add: record'_def)
    from 2(1)[OF this] show ?case by (simp add: r)
  qed
  show "records s = [] \<Longrightarrow> length rs \<le> nat (retention s) \<Longrightarrow>
   records (record_all s rs) = rs" using g[of s rs] by simp
qed

lemma score_eq:
  "retention s \<noteq> 0 \<Longrightarrow>
   score s = Inr (of_nat (length (filter snd (records s))) / of_int (retention s))"
  by (simp add: score_def)

lemma severe_warning_events:
  "Invoked a \<notin> set (fst (severe_warning w s))"
  by (auto simp: severe_warning_def log_call_def split: if_splits)

lemma warnings_new_sensor:
  "4 \<le> r \<Longrightarrow> warnings (new_sensor i ss se r) = [(1, Mild), (r div 2, Medium), (r, Severe)]"
proof -
  assume "4 \<le> r"
  then have "r div 2 \<noteq> r" "r div 2 \<noteq> 1" by linarith+
  then show ?thesis using \<open>4 \<le> r\<close> by (simp add: new_sensor_def)
qed

lemma score_le_1:
  assumes "0 < retention s" "length (records s) \<le> nat (retention s)"
  obtains k where "score s = Inr (of_nat k / of_int (retention s))" "int k \<le> retention s"
    "k = length (filter snd (records s))"
proof -
  have "length (filter snd (records s)) \<le> length (records s)" by simp
  then have "int (length (filter snd (records s))) \<le> retention s"
    using assms by linarith
  moreover have "retention s \<noteq> 0" using assms(1) by simp
  ultimately show ?thesis using that score_eq by blast
qed

lemma filter_all_iff:
  "length (filter P xs) = length xs \<longleftrightarrow> (\<forall>x\<in>set xs. P x)"
  by (metis filter_True length_filter_less less_irrefl_nat filter_id_conv)

subsection \<open>Score\<close>

text \<open>
  Claim C2. \<open>score\<close> is the number of failed records now held divided by the configured
  \<open>retention\<close>, whatever the number of records held; after exactly \<open>retention\<close> records
  on a new sensor, \<open>k\<close> of them failed, it is \<open>k / retention\<close>.
\<close>

theorem score_is_failed_over_retention:
  "(retention s \<noteq> 0 \<longrightarrow>
      score s = Inr (of_nat (length (filter snd (records s))) / of_int (retention s))) \<and>
   (0 < r \<and> length rs = nat r \<and> k = length (filter snd rs) \<longrightarrow>
      score (record_all (new_sensor i ss se r) rs) = Inr (of_nat k / of_int r))"
proof (intro conjI impI)
  assume "retention s \<noteq> 0"
  then show "score s = Inr (of_nat (length (filter snd (records s))) / of_int (retention s))"
    by (rule score_eq)
next
  assume a: "0 < r \<and> length rs = nat r \<and> k = length (filter snd rs)"
  have "records (record_all (new_sensor i ss se r) rs) = rs"
    using a by (intro record_all_fresh) (simp_all add: new_sensor_def)
  moreover have "retention (record_all (new_sensor i ss se r) rs) = r"
    by (simp add: new_sensor_def)
  ultimately show "score (record_all (new_sensor i ss se r) rs) = Inr (of_nat k / of_int r)"
    using a by (simp add: score_eq)
qed

theorem score_is_failed_over_retention_witness:
  "score (record' 7 True (new_sensor 120 3 2 10)) = Inr (1 / 10) \<and>
   length (records (record' 7 True (new_sensor 120 3 2 10))) = 1 \<and>
   score (record_all (new_sensor 120 3 2 4) [(1, False), (2, True), (3, True), (4, False)])
     = Inr (2 / 4)"
proof -
  have 1: "retention (record' 7 True (new_sensor 120 3 2 10)) \<noteq> 0"
    by (simp add: record'_def new_sensor_def)
  have 2: "records (record' 7 True (new_sensor 120 3 2 10)) = [(7, True)]"
    by (simp add: record'_def new_sensor_def deque_append_def)
  have 3: "retention (record' 7 True (new_sensor 120 3 2 10)) = 10"
    by (simp add: record'_def new_sensor_def)
  have 4: "(0::int) < 4 \<and> length [(1::rat, False), (2, True), (3, True), (4, False)] = nat 4 \<and>
      (2::nat) = length (filter snd [(1::rat, False), (2, True), (3, True), (4, False)])"
    by simp
  from score_is_failed_over_retention
         [of "record' 7 True (new_sensor 120 3 2 10)" 4
             "[(1, False), (2, True), (3, True), (4, False)]" 2 120 3 2]
  show ?thesis using 1 4 by (simp add: 2 3)
qed

subsection \<open>Escalation\<close>

text \<open>
  Claim C1, amended to \<open>retention \<ge> 4\<close>. On a sensor built with such a retention, after
  any run of records, \<open>issue_warnings\<close> calls neither the medium nor the severe action,
  and calls the mild one exactly when \<open>score\<close> is 1, that is when the window is full and
  every record in it is a failure. After \<open>retention\<close> failures on a new sensor the score
  is 1 and the mild action alone is called.
\<close>

theorem issue_warnings_fraction_thresholds:
  "4 \<le> r \<Longrightarrow> s = record_all (new_sensor i ss se r) rs \<Longrightarrow>
   Invoked Medium \<notin> set (fst (issue_warnings w s)) \<and>
   Invoked Severe \<notin> set (fst (issue_warnings w s)) \<and>
   (Invoked Mild \<in> set (fst (issue_warnings w s)) \<longleftrightarrow> score s = Inr 1) \<and>
   (score s = Inr 1 \<longleftrightarrow> length (records s) = nat r \<and> (\<forall>x\<in>set (records s). snd x)) \<and>
   (length rs = nat r \<and> (\<forall>x\<in>set rs. snd x) \<longrightarrow>
      score s = Inr 1 \<and>
      issue_warnings w s
        = ([Invoked Mild, Logged ''info'' (rest_url w @ '' is unreachable'')], Inr ()))"
proof -
  assume r4: "4 \<le> r" and s: "s = record_all (new_sensor i ss se r) rs"
  have ret: "retention s = r" by (simp add: s new_sensor_def)
  have ws: "warnings s = [(1, Mild), (r div 2, Medium), (r, Severe)]"
    using r4 by (simp add: s warnings_new_sensor)
  have lg: "log' s = twisted_Logger" by (simp add: s new_sensor_def)
  have bnd: "length (records s) \<le> nat (retention s)"
    unfolding s using record_all_bounded [of "new_sensor i ss se r" rs]
    by (simp add: new_sensor_def)
  from r4 ret have r0: "0 < retention s" by simp
  from score_le_1 [OF r0 bnd] obtain k where
    sc: "score s = Inr (of_nat k / of_int r)" and kr: "int k \<le> r"
    and k: "k = length (filter snd (records s))"
    unfolding ret by blast
  have rpos: "(0::rat) < of_int r" using r4 by simp
  have kr': "(of_nat k :: rat) \<le> of_int r"
    using kr by (metis of_int_le_iff of_int_of_nat_eq)
  have le1: "(of_nat k / of_int r :: rat) \<le> 1"
    using kr' rpos by (simp add: divide_le_eq_1_pos)
  have "(of_nat k :: rat) = of_int r \<longleftrightarrow> int k = r"
    by (metis of_int_eq_iff of_int_of_nat_eq)
  then have one: "(of_nat k / of_int r :: rat) = 1 \<longleftrightarrow> int k = r"
    using rpos by (auto simp: divide_eq_1_iff)
  have nmed: "\<not> (of_int (r div 2) \<le> (of_nat k / of_int r :: rat))"
  proof -
    have "(2::int) \<le> r div 2" using r4 by linarith
    then have "(2::rat) \<le> of_int (r div 2)" by (metis of_int_le_iff of_int_numeral)
    with le1 show ?thesis by linarith
  qed
  have nsev: "\<not> (of_int r \<le> (of_nat k / of_int r :: rat))"
  proof -
    have "(4::rat) \<le> of_int r" using r4 by (metis of_int_le_iff of_int_numeral)
    with le1 show ?thesis by linarith
  qed
  have mild: "invoke Mild w s
      = ([Invoked Mild, Logged ''info'' (rest_url w @ '' is unreachable'')], Inr ())"
    by (simp add: invoke_def mild_warning_def log_call_def lg twisted_Logger_def)
  have iw: "issue_warnings w s =
     (if (1::rat) \<le> of_nat k / of_int r
      then ([Invoked Mild, Logged ''info'' (rest_url w @ '' is unreachable'')], Inr ())
      else ([], Inr ()))"
    using nmed nsev by (simp add: issue_warnings_def ws sc mild)
  have ge1: "(1::rat) \<le> of_nat k / of_int r \<longleftrightarrow> int k = r"
    using le1 one by linarith
  have full: "int k = r \<longleftrightarrow> length (records s) = nat r \<and> (\<forall>x\<in>set (records s). snd x)"
  proof
    assume kk: "int k = r"
    have "k \<le> length (records s)" by (simp add: k)
    moreover have "length (records s) \<le> k" using bnd kk ret by linarith
    ultimately have "k = length (records s)" by simp
    then show "length (records s) = nat r \<and> (\<forall>x\<in>set (records s). snd x)"
      using kk k filter_all_iff [of snd "records s"] by auto
  next
    assume "length (records s) = nat r \<and> (\<forall>x\<in>set (records s). snd x)"
    then show "int k = r" using r4 by (simp add: k)
  qed
  have fresh: "length rs = nat r \<Longrightarrow> records s = rs"
    unfolding s by (intro record_all_fresh) (simp_all add: new_sensor_def)
  show ?thesis
  proof (intro conjI impI)
    show "Invoked Medium \<notin> set (fst (issue_warnings w s))" by (simp add: iw)
    show "Invoked Severe \<notin> set (fst (issue_warnings w s))" by (simp add: iw)
    show "Invoked Mild \<in> set (fst (issue_warnings w s)) \<longleftrightarrow> score s = Inr 1"
      using ge1 one by (simp add: iw sc)
    show "score s = Inr 1 \<longleftrightarrow> length (records s) = nat r \<and> (\<forall>x\<in>set (records s). snd x)"
      using one full by (simp add: sc)
  next
    assume a: "length rs = nat r \<and> (\<forall>x\<in>set rs. snd x)"
    then have "int k = r" using full fresh by simp
    then show "score s = Inr 1" using one by (simp add: sc)
    from \<open>int k = r\<close> show "issue_warnings w s
        = ([Invoked Mild, Logged ''info'' (rest_url w @ '' is unreachable'')], Inr ())"
      using ge1 by (simp add: iw)
  qed
qed

theorem issue_warnings_fraction_thresholds_witness:
  "(4::int) \<le> 10 \<and>
   score (record_all (new_sensor 120 3 2 10)
            [(1, True), (2, True), (3, True), (4, True), (5, True),
             (6, True), (7, True), (8, True), (9, True), (10, True)]) = Inr 1 \<and>
   issue_warnings quiet_env
     (record_all (new_sensor 120 3 2 10)
            [(1, True), (2, True), (3, True), (4, True), (5, True),
             (6, True), (7, True), (8, True), (9, True), (10, True)])
     = ([Invoked Mild, Logged ''info'' ''10.0.0.1:9151 is unreachable''], Inr ())"
proof -
  let ?rs = "[(1::rat, True), (2, True), (3, True), (4, True), (5, True),
             (6, True), (7, True), (8, True), (9, True), (10, True)]"
  have h: "(4::int) \<le> 10" by simp
  have l: "length ?rs = nat 10 \<and> (\<forall>x\<in>set ?rs. snd x)" by simp
  from issue_warnings_fraction_thresholds [OF h refl, where i = 120 and ss = 3 and se = 2 and rs = ?rs and w = quiet_env] l
  show ?thesis by (simp add: quiet_env_def)
qed

text \<open>
  With \<open>retention = 2\<close> the keys \<open>1\<close> and \<open>retention // 2\<close> of the \<open>warnings\<close> dict are the
  same key, which then holds the medium action: two failures call the medium action.
\<close>

theorem issue_warnings_medium_counterexample:
  "1 < retention (record_all (new_sensor 120 3 2 2) [(1, True), (2, True)]) \<and>
   issue_warnings quiet_env (record_all (new_sensor 120 3 2 2) [(1, True), (2, True)])
     = ([Invoked Medium], Inl (AttributeError ''warning''))"
  by (simp add: issue_warnings_def new_sensor_def record'_def deque_append_def score_def
      invoke_def medium_warning_def log_call_def twisted_Logger_def)

text \<open>
  Claim C5. On a sensor as \<open>__init__\<close> builds it, \<open>severe_warning\<close> asks the logger for
  \<open>critial\<close>, which it does not have: the call raises \<open>AttributeError\<close>, nothing is logged
  and \<open>Unreachable\<close> is not raised.
\<close>

theorem severe_warning_raises_attribute_error:
  "severe_warning w (new_sensor i ss se r) = ([], Inl (AttributeError ''critial''))"
  by (simp add: severe_warning_def log_call_def new_sensor_def twisted_Logger_def)

subsection \<open>Measurement and maintenance rounds\<close>

text \<open>
  Claim C8. With \<open>sensitivity > sample_size\<close>, \<open>measure\<close> raises \<open>ValueError\<close> with no
  event before it: nothing is sampled and no peer is probed, whatever the known peers are.
\<close>

theorem measure_sensitivity_guard:
  "sample_size s < sensitivity s \<Longrightarrow>
   measure' w s = ([], Inl (ValueError ''Threshold cannot be greater then the sample size.''))"
  by (simp add: measure'_def)

theorem measure_sensitivity_guard_witness:
  "sample_size (new_sensor 120 2 3 10) < sensitivity (new_sensor 120 2 3 10) \<and>
   measure' (quiet_env\<lparr>known_nodes := [1, 2, 3, 4, 5]\<rparr>) (new_sensor 120 2 3 10)
     = ([], Inl (ValueError ''Threshold cannot be greater then the sample size.''))"
proof -
  have h: "sample_size (new_sensor 120 2 3 10) < sensitivity (new_sensor 120 2 3 10)"
    by (simp add: new_sensor_def)
  from measure_sensitivity_guard [OF h] h show ?thesis by simp
qed

text \<open>
  Claim C9. A round that is skipped (known peers present but fewer than \<open>sample_size\<close>, or
  none while the node is lonely or the time since \<open>start_time\<close> is below
  \<open>MAXIMUM_ALONE_TIME\<close>) returns the sensor as it was, with no event: no record is
  appended and no action is called.
\<close>

theorem maintain_skips_round:
  "(known_nodes w \<noteq> [] \<and> int (length (known_nodes w)) < sample_size s) \<or>
   (known_nodes w = [] \<and>
      (lonely w \<or> (\<exists>t0. start_time s = Some t0 \<and> now w - t0 < MAXIMUM_ALONE_TIME)))
   \<Longrightarrow> maintain w s = (s, [], Inr ())"
  by (auto simp: maintain_def alone_round_def sampled_round_def Let_def)

theorem maintain_skips_round_witness:
  "known_nodes (quiet_env\<lparr>known_nodes := [4, 9]\<rparr>) \<noteq> [] \<and>
   int (length (known_nodes (quiet_env\<lparr>known_nodes := [4, 9]\<rparr>)))
     < sample_size (new_sensor 120 3 2 10) \<and>
   maintain (quiet_env\<lparr>known_nodes := [4, 9]\<rparr>) (new_sensor 120 3 2 10)
     = (new_sensor 120 3 2 10, [], Inr ())"
proof -
  have h: "known_nodes (quiet_env\<lparr>known_nodes := [4, 9]\<rparr>) \<noteq> [] \<and>
     int (length (known_nodes (quiet_env\<lparr>known_nodes := [4, 9]\<rparr>)))
       < sample_size (new_sensor 120 3 2 10)"
    by (simp add: new_sensor_def)
  from maintain_skips_round [of "quiet_env\<lparr>known_nodes := [4, 9]\<rparr>" "new_sensor 120 3 2 10"] h
  show ?thesis by blast
qed

text \<open>
  Claim C3, with its end of round corrected. With \<open>start_time\<close> set: when there are no
  known peers, the node is not lonely and the time since \<open>start_time\<close> has reached
  \<open>MAXIMUM_ALONE_TIME\<close>, the round calls the severe action exactly once and ends there by
  raising: the exception of the severe action leaves \<open>maintain\<close>, the \<open>return\<close> after the
  call is not reached, the sensor is unchanged and nothing is sampled, probed or
  recorded. With no known peers and the node lonely or the time below the bound, nothing is
  called and the round returns. With known peers this branch is not entered.
\<close>

theorem maintain_isolation:
  "start_time s = Some t0 \<Longrightarrow>
   (known_nodes w = [] \<and> \<not> lonely w \<and> MAXIMUM_ALONE_TIME \<le> now w - t0 \<longrightarrow>
      maintain w s = (s, Invoked Severe # fst (severe_warning w s), snd (severe_warning w s)) \<and>
      count_list (fst (snd (maintain w s))) (Invoked Severe) = 1 \<and>
      (\<exists>e. snd (snd (maintain w s)) = Inl e)) \<and>
   (known_nodes w = [] \<and> (lonely w \<or> now w - t0 < MAXIMUM_ALONE_TIME) \<longrightarrow>
      maintain w s = (s, [], Inr ())) \<and>
   (known_nodes w \<noteq> [] \<longrightarrow> maintain w s = sampled_round w s)"
proof (intro conjI impI)
  assume st: "start_time s = Some t0"
    and c: "known_nodes w = [] \<and> \<not> lonely w \<and> MAXIMUM_ALONE_TIME \<le> now w - t0"
  obtain evs r where sw: "severe_warning w s = (evs, r)" by (cases "severe_warning w s")
  have r: "\<exists>e. r = Inl e"
    using sw by (auto simp: severe_warning_def split: prod.splits sum.splits)
  have nin: "Invoked Severe \<notin> set evs"
    using severe_warning_events [of Severe w s] sw by simp
  show m: "maintain w s = (s, Invoked Severe # fst (severe_warning w s), snd (severe_warning w s))"
    using st c r by (auto simp: maintain_def alone_round_def invoke_def sw Let_def)
  show "count_list (fst (snd (maintain w s))) (Invoked Severe) = 1"
    using nin by (simp add: m sw count_list_0_iff)
  show "\<exists>e. snd (snd (maintain w s)) = Inl e"
    using r by (simp add: m sw)
next
  assume "start_time s = Some t0"
    and "known_nodes w = [] \<and> (lonely w \<or> now w - t0 < MAXIMUM_ALONE_TIME)"
  then show "maintain w s = (s, [], Inr ())"
    by (auto simp: maintain_def alone_round_def Let_def)
next
  assume "known_nodes w \<noteq> []"
  then show "maintain w s = sampled_round w s"
    by (simp add: maintain_def)
qed

theorem maintain_isolation_witness:
  "start_time (start 0 (new_sensor 120 3 2 10)) = Some 0 \<and>
   maintain (quiet_env\<lparr>now := 120\<rparr>) (start 0 (new_sensor 120 3 2 10))
     = (start 0 (new_sensor 120 3 2 10), [Invoked Severe], Inl (AttributeError ''critial'')) \<and>
   maintain (quiet_env\<lparr>now := 119\<rparr>) (start 0 (new_sensor 120 3 2 10))
     = (start 0 (new_sensor 120 3 2 10), [], Inr ())"
proof -
  have h: "start_time (start 0 (new_sensor 120 3 2 10)) = Some 0"
    by (simp add: start_def new_sensor_def)
  have sw: "severe_warning w (start 0 (new_sensor 120 3 2 10))
              = ([], Inl (AttributeError ''critial''))" for w
    by (simp add: severe_warning_def log_call_def start_def new_sensor_def twisted_Logger_def)
  have a: "known_nodes (quiet_env\<lparr>now := 120\<rparr>) = [] \<and> \<not> lonely (quiet_env\<lparr>now := 120\<rparr>) \<and>
           MAXIMUM_ALONE_TIME \<le> now (quiet_env\<lparr>now := 120\<rparr>) - 0"
    by (simp add: quiet_env_def MAXIMUM_ALONE_TIME_def)
  have b: "known_nodes (quiet_env\<lparr>now := 119\<rparr>) = [] \<and>
           (lonely (quiet_env\<lparr>now := 119\<rparr>) \<or>
            now (quiet_env\<lparr>now := 119\<rparr>) - 0 < MAXIMUM_ALONE_TIME)"
    by (simp add: quiet_env_def MAXIMUM_ALONE_TIME_def)
  from maintain_isolation [OF h, of "quiet_env\<lparr>now := 120\<rparr>"]
       maintain_isolation [OF h, of "quiet_env\<lparr>now := 119\<rparr>"] a b h
  show ?thesis by (simp add: sw)
qed

text \<open>
  The round of claim C3 does not return: on a sensor as \<open>__init__\<close> builds it, started at
  time 0 and run at time 120 with no known peers, \<open>maintain\<close> raises.
\<close>

theorem maintain_isolation_raises_counterexample:
  "known_nodes (quiet_env\<lparr>now := 120\<rparr>) = [] \<and>
   \<not> lonely (quiet_env\<lparr>now := 120\<rparr>) \<and>
   start_time (start 0 (new_sensor 120 3 2 10)) = Some 0 \<and>
   MAXIMUM_ALONE_TIME \<le> now (quiet_env\<lparr>now := 120\<rparr>) - 0 \<and>
   snd (snd (maintain (quiet_env\<lparr>now := 120\<rparr>) (start 0 (new_sensor 120 3 2 10))))
     = Inl (AttributeError ''critial'') \<and>
   snd (snd (maintain (quiet_env\<lparr>now := 120\<rparr>) (start 0 (new_sensor 120 3 2 10))))
     \<noteq> Inr ()"
  by (simp add: quiet_env_def start_def new_sensor_def MAXIMUM_ALONE_TIME_def maintain_def
      alone_round_def invoke_def severe_warning_def log_call_def twisted_Logger_def)

section \<open>Properties of peer addresses\<close>

subsection \<open>UTF-8 and big-endian bytes\<close>

lemma unat_byte: "x < 256 \<Longrightarrow> unat (of_nat x :: byte) = x"
  by (simp add: unat_of_nat)

lemma decode_lead1:
  "unat b0 < 0x80 \<Longrightarrow> utf8_decode (b0 # rest) = decoded (unat b0) (utf8_decode rest)"
  by simp

lemma decode_lead2:
  "0xC2 \<le> unat b0 \<Longrightarrow> unat b0 < 0xE0 \<Longrightarrow> is_cont b1 \<Longrightarrow>
   utf8_decode (b0 # b1 # rest)
     = decoded ((unat b0 - 0xC0) * 64 + cont_bits b1) (utf8_decode rest)"
  by simp

lemma decode_lead3:
  "0xE0 \<le> unat b0 \<Longrightarrow> unat b0 < 0xF0 \<Longrightarrow> is_cont b1 \<Longrightarrow> is_cont b2 \<Longrightarrow>
   c = (unat b0 - 0xE0) * 4096 + cont_bits b1 * 64 + cont_bits b2 \<Longrightarrow>
   0x800 \<le> c \<Longrightarrow> \<not> (0xD800 \<le> c \<and> c < 0xE000) \<Longrightarrow>
   utf8_decode (b0 # b1 # b2 # rest) = decoded c (utf8_decode rest)"
  by (simp add: Let_def)

lemma decode_lead4:
  "0xF0 \<le> unat b0 \<Longrightarrow> unat b0 < 0xF5 \<Longrightarrow> is_cont b1 \<Longrightarrow> is_cont b2 \<Longrightarrow> is_cont b3 \<Longrightarrow>
   c = (unat b0 - 0xF0) * 262144 + cont_bits b1 * 4096 + cont_bits b2 * 64 + cont_bits b3 \<Longrightarrow>
   0x10000 \<le> c \<Longrightarrow> c < 0x110000 \<Longrightarrow>
   utf8_decode (b0 # b1 # b2 # b3 # rest) = decoded c (utf8_decode rest)"
  by (simp add: Let_def)

lemma cont_byte:
  "m < 64 \<Longrightarrow> is_cont (of_nat (0x80 + m)) \<and> cont_bits (of_nat (0x80 + m)) = m"
proof -
  assume "m < 64"
  then have "0x80 + m < 256" by simp
  then have "unat (of_nat (0x80 + m) :: byte) = 0x80 + m" by (rule unat_byte)
  then show ?thesis using \<open>m < 64\<close> unfolding is_cont_def cont_bits_def by simp
qed

lemma div_lt: "c < k * n \<Longrightarrow> c div n < (k::nat)"
  by (rule less_mult_imp_div_less)

lemma split64: "(c::nat) div 64 * 64 + c mod 64 = c"
  by simp

lemma split4096: "(c::nat) div 4096 * 4096 + c div 64 mod 64 * 64 + c mod 64 = c"
proof -
  have "c mod (64 * 64) = 64 * (c div 64 mod 64) + c mod 64" by (rule mod_mult2_eq)
  then have "c mod 4096 = c div 64 mod 64 * 64 + c mod 64" by simp
  moreover have "c div 4096 * 4096 + c mod 4096 = c" by simp
  ultimately show ?thesis by simp
qed

lemma split262144:
  "(c::nat) div 262144 * 262144 + c div 4096 mod 64 * 4096 + c div 64 mod 64 * 64 + c mod 64 = c"
proof -
  have "c mod (4096 * 64) = 4096 * (c div 4096 mod 64) + c mod 4096" by (rule mod_mult2_eq)
  then have a: "c mod 262144 = c div 4096 mod 64 * 4096 + c mod 4096" by simp
  have "c mod (64 * 64) = 64 * (c div 64 mod 64) + c mod 64" by (rule mod_mult2_eq)
  then have b: "c mod 4096 = c div 64 mod 64 * 64 + c mod 64" by simp
  have "c div 262144 * 262144 + c mod 262144 = c" by simp
  then show ?thesis unfolding a b by simp
qed

lemma decode_cp1:
  assumes "c < 0x80"
  shows "utf8_decode ((of_nat c :: byte) # rest) = decoded c (utf8_decode rest)"
proof -
  have u: "unat (of_nat c :: byte) = c" using assms by (intro unat_byte) simp
  have "unat (of_nat c :: byte) < 0x80" using assms by (simp only: u)
  from decode_lead1 [OF this, of rest] show ?thesis by (simp only: u)
qed

lemma decode_cp2:
  assumes "0x80 \<le> c" "c < 0x800"
  shows "utf8_decode ((of_nat (0xC0 + c div 64) :: byte) # of_nat (0x80 + c mod 64) # rest)
           = decoded c (utf8_decode rest)"
proof -
  have d1: "c div 64 < 32" using assms(2) by (intro div_lt) simp
  have "128 div 64 \<le> c div 64" using assms(1) by (intro div_le_mono) simp
  then have d2: "2 \<le> c div 64" by simp
  have "0xC0 + c div 64 < 256" using d1 by simp
  then have u: "unat (of_nat (0xC0 + c div 64) :: byte) = 0xC0 + c div 64"
    by (rule unat_byte)
  have c1: "is_cont (of_nat (0x80 + c mod 64))" "cont_bits (of_nat (0x80 + c mod 64)) = c mod 64"
    using cont_byte [of "c mod 64"] by simp_all
  have lo: "0xC2 \<le> unat (of_nat (0xC0 + c div 64) :: byte)"
    unfolding u using d2 by simp
  have hi: "unat (of_nat (0xC0 + c div 64) :: byte) < 0xE0"
    unfolding u using d1 by simp
  have v: "(0xC0 + c div 64 - 0xC0) * 64 + c mod 64 = c" by simp
  from decode_lead2 [OF lo hi c1(1), of rest] show ?thesis
    unfolding u c1(2) v .
qed

lemma decode_cp3:
  assumes "0x800 \<le> c" "c < 0x10000" "\<not> (0xD800 \<le> c \<and> c < 0xE000)"
  shows "utf8_decode ((of_nat (0xE0 + c div 4096) :: byte) # of_nat (0x80 + c div 64 mod 64)
                        # of_nat (0x80 + c mod 64) # rest)
           = decoded c (utf8_decode rest)"
proof -
  have d: "c div 4096 < 16" using assms(2) by (intro div_lt) simp
  have "0xE0 + c div 4096 < 256" using d by simp
  then have u: "unat (of_nat (0xE0 + c div 4096) :: byte) = 0xE0 + c div 4096"
    by (rule unat_byte)
  have c1: "is_cont (of_nat (0x80 + c div 64 mod 64))"
      "cont_bits (of_nat (0x80 + c div 64 mod 64)) = c div 64 mod 64"
    using cont_byte [of "c div 64 mod 64"] by simp_all
  have c2: "is_cont (of_nat (0x80 + c mod 64))" "cont_bits (of_nat (0x80 + c mod 64)) = c mod 64"
    using cont_byte [of "c mod 64"] by simp_all
  have lo: "0xE0 \<le> unat (of_nat (0xE0 + c div 4096) :: byte)"
    unfolding u by simp
  have hi: "unat (of_nat (0xE0 + c div 4096) :: byte) < 0xF0"
    unfolding u using d by simp
  have v: "c = (unat (of_nat (0xE0 + c div 4096) :: byte) - 0xE0) * 4096
            + cont_bits (of_nat (0x80 + c div 64 mod 64)) * 64
            + cont_bits (of_nat (0x80 + c mod 64))"
    unfolding u c1(2) c2(2) using split4096 [of c] by simp
  from decode_lead3 [OF lo hi c1(1) c2(1) v assms(1) assms(3), of rest] show ?thesis .
qed

lemma decode_cp4:
  assumes "0x10000 \<le> c" "c < 0x110000"
  shows "utf8_decode ((of_nat (0xF0 + c div 262144) :: byte) # of_nat (0x80 + c div 4096 mod 64)
                        # of_nat (0x80 + c div 64 mod 64) # of_nat (0x80 + c mod 64) # rest)
           = decoded c (utf8_decode rest)"
proof -
  have "c < 5 * 262144" using assms(2) by simp
  then have d: "c div 262144 < 5" by (rule div_lt)
  have "0xF0 + c div 262144 < 256" using d by simp
  then have u: "unat (of_nat (0xF0 + c div 262144) :: byte) = 0xF0 + c div 262144"
    by (rule unat_byte)
  have c1: "is_cont (of_nat (0x80 + c div 4096 mod 64))"
      "cont_bits (of_nat (0x80 + c div 4096 mod 64)) = c div 4096 mod 64"
    using cont_byte [of "c div 4096 mod 64"] by simp_all
  have c2: "is_cont (of_nat (0x80 + c div 64 mod 64))"
      "cont_bits (of_nat (0x80 + c div 64 mod 64)) = c div 64 mod 64"
    using cont_byte [of "c div 64 mod 64"] by simp_all
  have c3: "is_cont (of_nat (0x80 + c mod 64))" "cont_bits (of_nat (0x80 + c mod 64)) = c mod 64"
    using cont_byte [of "c mod 64"] by simp_all
  have lo: "0xF0 \<le> unat (of_nat (0xF0 + c div 262144) :: byte)"
    unfolding u by simp
  have hi: "unat (of_nat (0xF0 + c div 262144) :: byte) < 0xF5"
    unfolding u using d by simp
  have v: "c = (unat (of_nat (0xF0 + c div 262144) :: byte) - 0xF0) * 262144
            + cont_bits (of_nat (0x80 + c div 4096 mod 64)) * 4096
            + cont_bits (of_nat (0x80 + c div 64 mod 64)) * 64
            + cont_bits (of_nat (0x80 + c mod 64))"
    unfolding u c1(2) c2(2) c3(2) using split262144 [of c] by simp
  from decode_lead4 [OF lo hi c1(1) c2(1) c3(1) v assms(1) assms(2), of rest] show ?thesis .
qed

lemma decode_encode_cp:
  assumes "utf8_encode_cp c = Some bs"
  shows "utf8_decode (bs @ rest) = decoded c (utf8_decode rest)"
proof -
  consider (a) "c < 0x80" | (b) "0x80 \<le> c" "c < 0x800"
    | (s) "0xD800 \<le> c" "c < 0xE000"
    | (c) "0x800 \<le> c" "c < 0x10000" "\<not> (0xD800 \<le> c \<and> c < 0xE000)"
    | (d) "0x10000 \<le> c" "c < 0x110000" | (e) "0x110000 \<le> c"
    by linarith
  then show ?thesis
  proof cases
    case a
    then have "bs = [of_nat c]" using assms by (simp add: utf8_encode_cp_def)
    then show ?thesis using decode_cp1 [OF a, of rest] by (simp only: append_Cons append_Nil)
  next
    case b
    then have "bs = [of_nat (0xC0 + c div 64), of_nat (0x80 + c mod 64)]"
      using assms by (simp add: utf8_encode_cp_def)
    then show ?thesis using decode_cp2 [OF b, of rest] by (simp only: append_Cons append_Nil)
  next
    case s
    then have "utf8_encode_cp c = None" by (simp add: utf8_encode_cp_def)
    then show ?thesis using assms by simp
  next
    case c
    then have "bs = [of_nat (0xE0 + c div 4096), of_nat (0x80 + c div 64 mod 64),
              of_nat (0x80 + c mod 64)]"
      using assms by (auto simp: utf8_encode_cp_def split: if_splits)
    then show ?thesis using decode_cp3 [OF c, of rest] by (simp only: append_Cons append_Nil)
  next
    case d
    then have "bs = [of_nat (0xF0 + c div 262144), of_nat (0x80 + c div 4096 mod 64),
              of_nat (0x80 + c div 64 mod 64), of_nat (0x80 + c mod 64)]"
      using assms by (simp add: utf8_encode_cp_def)
    then show ?thesis using decode_cp4 [OF d, of rest] by (simp only: append_Cons append_Nil)
  next
    case e
    then have "utf8_encode_cp c = None" by (simp add: utf8_encode_cp_def)
    then show ?thesis using assms by simp
  qed
qed

lemma decoded_Inr [simp]: "decoded c (Inr cs) = Inr (c # cs)"
  by (simp add: decoded_def)

lemma utf8_decode_encode:
  "utf8_encode h = Inr bs \<Longrightarrow> utf8_decode bs = Inr h"
proof (induction h arbitrary: bs)
  case Nil
  then show ?case by simp
next
  case (Cons c cs)
  from Cons.prems obtain b r where
    b: "utf8_encode_cp c = Some b" and r: "utf8_encode cs = Inr r" and bs: "bs = b @ r"
    by (auto split: option.splits sum.splits)
  have "utf8_decode (b @ r) = decoded c (utf8_decode r)"
    using b by (rule decode_encode_cp)
  also have "\<dots> = Inr (c # cs)" using Cons.IH [OF r] by simp
  finally show ?case by (simp only: bs)
qed

lemma utf8_encode_cp_valid:
  "c < 0x110000 \<Longrightarrow> \<not> (0xD800 \<le> c \<and> c < 0xE000) \<Longrightarrow> \<exists>bs. utf8_encode_cp c = Some bs"
  by (auto simp: utf8_encode_cp_def)

lemma utf8_encode_valid:
  "\<forall>c\<in>set h. c < 0x110000 \<and> \<not> (0xD800 \<le> c \<and> c < 0xE000) \<Longrightarrow> \<exists>bs. utf8_encode h = Inr bs"
proof (induction h)
  case Nil
  then show ?case by simp
next
  case (Cons c cs)
  then obtain r where r: "utf8_encode cs = Inr r" by auto
  from Cons.prems obtain b where b: "utf8_encode_cp c = Some b"
    using utf8_encode_cp_valid [of c] by auto
  show ?case by (simp add: r b)
qed

lemma byte_not_colon: "x < 256 \<Longrightarrow> x \<noteq> 58 \<Longrightarrow> (of_nat x :: byte) \<noteq> COLON"
proof
  assume x: "x < 256" "x \<noteq> 58" and e: "(of_nat x :: byte) = COLON"
  have "unat (of_nat x :: byte) = x" using x(1) by (rule unat_byte)
  moreover have "unat COLON = 58" by (simp add: COLON_def)
  ultimately show False using e x(2) by simp
qed

lemma encode_cp_no_colon:
  assumes "utf8_encode_cp c = Some bs" "c \<noteq> 58"
  shows "COLON \<notin> set bs"
proof -
  have m: "c mod 64 < 128" "c div 64 mod 64 < 128" "c div 4096 mod 64 < 128"
    by (simp_all add: less_trans [OF mod_less_divisor])
  have hi: "(of_nat (0x80 + k) :: byte) \<noteq> COLON" if "k < 128" for k
    using that by (intro byte_not_colon) simp_all
  consider (a) "c < 0x80" | (b) "0x80 \<le> c" "c < 0x800"
    | (s) "0xD800 \<le> c" "c < 0xE000"
    | (c) "0x800 \<le> c" "c < 0x10000" "\<not> (0xD800 \<le> c \<and> c < 0xE000)"
    | (d) "0x10000 \<le> c" "c < 0x110000" | (e) "0x110000 \<le> c"
    by linarith
  then show ?thesis
  proof cases
    case a
    then have bs: "bs = [of_nat c]" using assms by (simp add: utf8_encode_cp_def)
    have "(of_nat c :: byte) \<noteq> COLON" using a assms(2) by (intro byte_not_colon) simp_all
    then show ?thesis by (simp only: bs) simp
  next
    case b
    have d1: "c div 64 < 32" using b(2) by (intro div_lt) simp
    have l: "(of_nat (0xC0 + c div 64) :: byte) \<noteq> COLON"
      using d1 by (intro byte_not_colon) simp_all
    have bs: "set bs = {of_nat (0xC0 + c div 64), of_nat (0x80 + c mod 64)}"
      using assms b by (auto simp: utf8_encode_cp_def simp del: of_nat_add of_nat_numeral)
    show ?thesis unfolding bs using l hi [OF m(1)]
      by (auto simp del: of_nat_add of_nat_numeral)
  next
    case s
    then have "utf8_encode_cp c = None" by (simp add: utf8_encode_cp_def)
    then show ?thesis using assms by simp
  next
    case c
    have d: "c div 4096 < 16" using c(2) by (intro div_lt) simp
    have l: "(of_nat (0xE0 + c div 4096) :: byte) \<noteq> COLON"
      using d by (intro byte_not_colon) simp_all
    have bs: "set bs = {of_nat (0xE0 + c div 4096), of_nat (0x80 + c div 64 mod 64),
                of_nat (0x80 + c mod 64)}"
      using assms c
      by (auto simp: utf8_encode_cp_def simp del: of_nat_add of_nat_numeral split: if_splits)
    show ?thesis unfolding bs using l hi [OF m(1)] hi [OF m(2)]
      by (auto simp del: of_nat_add of_nat_numeral)
  next
    case d
    have "c < 5 * 262144" using d(2) by simp
    then have dd: "c div 262144 < 5" by (rule div_lt)
    have l: "(of_nat (0xF0 + c div 262144) :: byte) \<noteq> COLON"
      using dd by (intro byte_not_colon) simp_all
    have bs: "set bs = {of_nat (0xF0 + c div 262144), of_nat (0x80 + c div 4096 mod 64),
                of_nat (0x80 + c div 64 mod 64), of_nat (0x80 + c mod 64)}"
      using assms d
      by (auto simp: utf8_encode_cp_def simp del: of_nat_add of_nat_numeral split: if_splits)
    show ?thesis unfolding bs using l hi [OF m(1)] hi [OF m(2)] hi [OF m(3)]
      by (auto simp del: of_nat_add of_nat_numeral)
  next
    case e
    then have "utf8_encode_cp c = None" by (simp add: utf8_encode_cp_def)
    then show ?thesis using assms by simp
  qed
qed

lemma utf8_encode_no_colon:
  "utf8_encode h = Inr bs \<Longrightarrow> 58 \<notin> set h \<Longrightarrow> COLON \<notin> set bs"
proof (induction h arbitrary: bs)
  case Nil
  then show ?case by simp
next
  case (Cons c cs)
  from Cons.prems(1) obtain b r where
    b: "utf8_encode_cp c = Some b" and r: "utf8_encode cs = Inr r" and bs: "bs = b @ r"
    by (auto split: option.splits sum.splits)
  have "COLON \<notin> set b" using b Cons.prems(2) by (intro encode_cp_no_colon) auto
  moreover have "COLON \<notin> set r" using Cons.IH [OF r] Cons.prems(2) by simp
  ultimately show ?case by (simp add: bs)
qed

lemma split1_at_first:
  "sep \<notin> set a \<Longrightarrow> split1 sep (a @ sep # b) = [a, b]"
proof -
  assume n: "sep \<notin> set a"
  then have d: "dropWhile (\<lambda>x. x \<noteq> sep) (a @ sep # b) = sep # b"
    by (induction a) auto
  have t: "takeWhile (\<lambda>x. x \<noteq> sep) (a @ sep # b) = a"
    using n by (induction a) auto
  show ?thesis by (simp add: split1_def d t)
qed

lemma be_bytes_4:
  "be_bytes 4 n = [of_nat (n div 16777216 mod 256), of_nat (n div 65536 mod 256),
                   of_nat (n div 256 mod 256), of_nat (n mod 256)]"
proof -
  have "(4::nat) = Suc (Suc (Suc (Suc 0)))" by simp
  then have "be_bytes 4 n = be_bytes (Suc (Suc (Suc (Suc 0)))) n" by (rule arg_cong)
  also have "\<dots> = [of_nat (n div 16777216 mod 256), of_nat (n div 65536 mod 256),
                   of_nat (n div 256 mod 256), of_nat (n mod 256)]"
    by simp
  finally show ?thesis .
qed

lemma split_be32:
  assumes "(n::nat) < 4294967296"
  shows "((n div 16777216 mod 256 * 256 + n div 65536 mod 256) * 256 + n div 256 mod 256) * 256
           + n mod 256 = n"
proof -
  have "n < 256 * 16777216" using assms by simp
  then have "n div 16777216 < 256" by (rule div_lt)
  then have t: "n div 16777216 mod 256 = n div 16777216" by simp
  have "n mod (65536 * 256) = 65536 * (n div 65536 mod 256) + n mod 65536" by (rule mod_mult2_eq)
  then have a: "n mod 16777216 = n div 65536 mod 256 * 65536 + n mod 65536" by simp
  have "n mod (256 * 256) = 256 * (n div 256 mod 256) + n mod 256" by (rule mod_mult2_eq)
  then have b: "n mod 65536 = n div 256 mod 256 * 256 + n mod 256" by simp
  have "n div 16777216 * 16777216 + n mod 16777216 = n" by simp
  then show ?thesis unfolding t a b by simp
qed

lemma int_from_be_bytes_4:
  assumes "n < 4294967296"
  shows "int_from_bytes (be_bytes 4 n) = int n"
proof -
  have u: "unat (of_nat (x mod 256) :: byte) = x mod 256" for x
    by (intro unat_byte) simp
  have "int_from_bytes (be_bytes 4 n)
      = int (((n div 16777216 mod 256 * 256 + n div 65536 mod 256) * 256 + n div 256 mod 256) * 256
           + n mod 256)"
    unfolding be_bytes_4 int_from_bytes_def by (simp only: foldl.simps u) simp
  then show ?thesis by (simp only: split_be32 [OF assms])
qed

lemma to_bytes_4:
  "0 \<le> p \<Longrightarrow> p < 2 ^ 32 \<Longrightarrow> to_bytes p 4 = Inr (be_bytes 4 (nat p))"
  by (simp add: to_bytes_def)

lemma InterfaceInfo_fields:
  "host (InterfaceInfo h p) = (if h = str_lit ''localhost'' then str_lit ''127.0.0.1'' else h)"
  "port (InterfaceInfo h p) = p"
  by (simp_all add: InterfaceInfo_def Let_def)

lemma InterfaceInfo_idem:
  "InterfaceInfo (host (InterfaceInfo h p)) (port (InterfaceInfo h p)) = InterfaceInfo h p"
proof -
  have "str_lit ''127.0.0.1'' \<noteq> str_lit ''localhost''" by (simp add: str_lit_def)
  then show ?thesis by (simp add: InterfaceInfo_def Let_def)
qed

lemma loopback_chars:
  "\<forall>c\<in>set (str_lit ''127.0.0.1''). c < 0x110000 \<and> \<not> (0xD800 \<le> c \<and> c < 0xE000) \<and> c \<noteq> 58"
  by (simp add: str_lit_def)

text \<open>
  Claim C4. For a host of encodable code points without a colon and a port from 0 to
  \<open>2^32 - 1\<close>, the address built by \<open>InterfaceInfo\<close> has a binary form, and decoding that
  form gives the same address back: the host as given, or \<open>127.0.0.1\<close> when it was given as
  \<open>localhost\<close>, and the port as given.
\<close>

theorem interface_info_roundtrip:
  "\<forall>c\<in>set h. c < 0x110000 \<and> \<not> (0xD800 \<le> c \<and> c < 0xE000) \<and> c \<noteq> 58 \<Longrightarrow>
   0 \<le> p \<Longrightarrow> p < 2 ^ 32 \<Longrightarrow>
   \<exists>bs. bytes_of (InterfaceInfo h p) = Inr bs \<and>
        from_bytes bs = Inr (InterfaceInfo h p) \<and>
        host (InterfaceInfo h p)
          = (if h = str_lit ''localhost'' then str_lit ''127.0.0.1'' else h) \<and>
        port (InterfaceInfo h p) = p"
proof -
  assume h: "\<forall>c\<in>set h. c < 0x110000 \<and> \<not> (0xD800 \<le> c \<and> c < 0xE000) \<and> c \<noteq> 58"
    and p0: "0 \<le> p" and p1: "p < 2 ^ 32"
  let ?a = "InterfaceInfo h p"
  have ok: "\<forall>c\<in>set (host ?a). c < 0x110000 \<and> \<not> (0xD800 \<le> c \<and> c < 0xE000) \<and> c \<noteq> 58"
    using h loopback_chars by (simp add: InterfaceInfo_fields(1))
  then obtain hb where hb: "utf8_encode (host ?a) = Inr hb"
    using utf8_encode_valid [of "host ?a"] by blast
  have "58 \<notin> set (host ?a)" using ok by blast
  then have nc: "COLON \<notin> set hb" using hb by (intro utf8_encode_no_colon)
  have pb: "to_bytes (port ?a) 4 = Inr (be_bytes 4 (nat p))"
    using p0 p1 by (simp only: InterfaceInfo_fields(2) to_bytes_4)
  have enc: "bytes_of ?a = Inr (hb @ COLON # be_bytes 4 (nat p))"
    by (simp add: bytes_of_def hb pb)
  have sp: "split1 COLON (hb @ COLON # be_bytes 4 (nat p)) = [hb, be_bytes 4 (nat p)]"
    using nc by (rule split1_at_first)
  have "nat p < 4294967296" using p0 p1 by simp
  then have pi: "int_from_bytes (be_bytes 4 (nat p)) = p"
    using p0 by (simp add: int_from_be_bytes_4)
  have dec: "utf8_decode hb = Inr (host ?a)" using hb by (rule utf8_decode_encode)
  have "from_bytes (hb @ COLON # be_bytes 4 (nat p)) = Inr (InterfaceInfo (host ?a) p)"
    unfolding from_bytes_def sp by (simp add: pi dec)
  also have "InterfaceInfo (host ?a) p = ?a"
    using InterfaceInfo_idem [of h p] by (simp only: InterfaceInfo_fields(2))
  finally have "from_bytes (hb @ COLON # be_bytes 4 (nat p)) = Inr ?a" .
  with enc show ?thesis by (simp add: InterfaceInfo_fields)
qed

theorem interface_info_roundtrip_witness:
  "(0::int) \<le> 58 \<and> (58::int) < 2 ^ 32 \<and>
   bytes_of (InterfaceInfo (str_lit ''localhost'') 58)
     = Inr [49, 50, 55, 46, 48, 46, 48, 46, 49, 58, 0, 0, 0, 58] \<and>
   from_bytes [49, 50, 55, 46, 48, 46, 48, 46, 49, 58, 0, 0, 0, 58]
     = Inr \<lparr>host = str_lit ''127.0.0.1'', port = 58\<rparr>"
proof -
  have h: "\<forall>c\<in>set (str_lit ''localhost''). c < 0x110000 \<and> \<not> (0xD800 \<le> c \<and> c < 0xE000) \<and> c \<noteq> 58"
    by (simp add: str_lit_def)
  have p: "(0::int) \<le> 58" "(58::int) < 2 ^ 32" by simp_all
  have a: "InterfaceInfo (str_lit ''localhost'') 58 = \<lparr>host = str_lit ''127.0.0.1'', port = 58\<rparr>"
    by (simp add: InterfaceInfo_def)
  have b: "bytes_of \<lparr>host = str_lit ''127.0.0.1'', port = 58\<rparr>
             = Inr [49, 50, 55, 46, 48, 46, 48, 46, 49, 58, 0, 0, 0, 58]"
    by (simp add: bytes_of_def str_lit_def utf8_encode_cp_def to_bytes_def be_bytes_4 COLON_def)
  from interface_info_roundtrip [OF h p] obtain bs where
    "bytes_of (InterfaceInfo (str_lit ''localhost'') 58) = Inr bs"
    "from_bytes bs = Inr (InterfaceInfo (str_lit ''localhost'') 58)"
    by blast
  then show ?thesis using p unfolding a b by simp
qed

section \<open>Properties of node locators\<close>

lemma str_split_length: "length (str_split sep s) = Suc (count_list s sep)"
  by (induction s) (auto split: list.splits)

lemma unpack_too_many:
  "3 \<le> length parts \<Longrightarrow>
   (case parts of [a, b] \<Rightarrow> f a b | ps \<Rightarrow> g) = g"
  by (auto split: list.splits)

text \<open>
  Claim C10. A locator with two or more \<open>@\<close> splits into three or more parts, which
  cannot be unpacked into two names: \<open>parse_node_uri\<close> raises and returns no result.
\<close>

theorem parse_node_uri_two_separators:
  "2 \<le> count_list uri CHR ''@'' \<Longrightarrow>
   parse_node_uri d uri = Inl (ValueError ''too many values to unpack (expected 2)'')"
proof -
  assume c: "2 \<le> count_list uri CHR ''@''"
  then have "count_list uri CHR ''@'' \<noteq> 0" by simp
  then have m: "CHR ''@'' \<in> set uri" by (simp add: count_list_0_iff)
  have "3 \<le> length (str_split CHR ''@'' uri)"
    using c by (simp add: str_split_length)
  then have "(case str_split CHR ''@'' uri of
                 [checksum_address, uri'] \<Rightarrow>
                   if \<not> is_checksum_address d checksum_address
                   then Inl (ValueError ''is not a valid checksum address.'')
                   else Inr (Some checksum_address, uri')
               | parts \<Rightarrow> Inl (ValueError ''too many values to unpack (expected 2)''))
             = Inl (ValueError ''too many values to unpack (expected 2)'')"
    by (rule unpack_too_many)
  then show ?thesis using m by (simp add: parse_node_uri_def)
qed

theorem parse_node_uri_two_separators_witness:
  "2 \<le> count_list ''a@b@c'' CHR ''@'' \<and>
   parse_node_uri example_deps ''a@b@c''
     = Inl (ValueError ''too many values to unpack (expected 2)'')"
proof -
  have h: "2 \<le> count_list ''a@b@c'' CHR ''@''" by simp
  from parse_node_uri_two_separators [OF h, of example_deps] h show ?thesis by blast
qed

subsection \<open>The forced scheme\<close>

lemma split_scheme_https:
  "split_scheme (''https://'' @ x) = (''https'', ''//'' @ x)"
  by (simp add: split_scheme_def scheme_chars_def str_lower_def lower_char_def)













lemma urlparse_https_scheme:
  "urlparse (''https://'' @ x) = Inr r \<Longrightarrow> scheme r = ''https''"
  unfolding urlparse_def split_scheme_https
  by (auto simp: Let_def split: if_splits)

lemma startswith_decomp: "startswith u p \<Longrightarrow> \<exists>y. u = p @ y"
  unfolding startswith_def by (metis append_take_drop_id)

lemma forced_https:
  "\<exists>y. (if \<not> startswith u ''https://'' then ''https://'' @ u else u) = ''https://'' @ y"
  using startswith_decomp [of u "''https://''"] by (cases "startswith u ''https://''") auto

lemma after_prefix_never_scheme_error:
  assumes "urlparse (''https://'' @ y) = Inr parsed0"
  shows "(case (if scheme parsed0 = [] then urlparse (''https://'' @ (''https://'' @ y))
                else Inr parsed0) of
            Inl e \<Rightarrow> Inl e
          | Inr parsed_uri \<Rightarrow>
              if \<not> scheme parsed_uri = ''https''
              then Inl (ValueError ''Invalid teacher scheme or protocol.'')
              else f parsed_uri)
         = f parsed0"
proof -
  have "scheme parsed0 = ''https''" using assms by (rule urlparse_https_scheme)
  then show ?thesis by simp
qed

lemma urlparse_error:
  "urlparse x = Inl e \<Longrightarrow> e = ValueError ''Invalid IPv6 URL''"
  unfolding urlparse_def by (auto simp: Let_def split: prod.splits if_splits)

lemma port_of_error:
  "port_of d r = Inl e \<Longrightarrow>
   e = ValueError ''invalid literal for int() with base 10'' \<or>
   e = ValueError ''Port out of range 0-65535''"
  unfolding port_of_def by (auto split: option.splits if_splits)

lemma parse_node_uri_never_scheme_error:
  "parse_node_uri d uri \<noteq> Inl (ValueError ''Invalid teacher scheme or protocol.'')"
proof -
  define first where "first =
     (if CHR ''@'' \<in> set uri then
              (case str_split CHR ''@'' uri of
                 [checksum_address, uri'] \<Rightarrow>
                   if \<not> is_checksum_address d checksum_address
                   then Inl (ValueError ''is not a valid checksum address.'')
                   else Inr (Some checksum_address, uri')
               | parts \<Rightarrow> Inl (ValueError ''too many values to unpack (expected 2)''))
            else Inr (None, uri))"
  have fe: "e = ValueError ''is not a valid checksum address.'' \<or>
            e = ValueError ''too many values to unpack (expected 2)''" if "first = Inl e" for e
    using that unfolding first_def by (auto split: if_splits list.splits)
  show ?thesis
  proof (cases first)
    case (Inl e)
    then have "parse_node_uri d uri = Inl e"
      unfolding parse_node_uri_def first_def [symmetric] by simp
    then show ?thesis using fe [OF Inl] by auto
  next
    case (Inr p)
    obtain ca u1 where p: "p = (ca, u1)" by (cases p)
    obtain y where y: "(if \<not> startswith u1 ''https://'' then ''https://'' @ u1 else u1)
        = ''https://'' @ y"
      using forced_https [of u1] by blast
    show ?thesis
    proof (cases "urlparse (''https://'' @ y)")
      case (Inl e)
      then have "parse_node_uri d uri = Inl e"
        unfolding parse_node_uri_def first_def [symmetric] Inr p
        by (simp only: sum.case prod.case y Let_def)
      then show ?thesis using urlparse_error [OF Inl] by simp
    next
      case (Inr parsed0)
      have "parse_node_uri d uri =
         (case port_of d parsed0 of
            Inl e \<Rightarrow> Inl e
          | Inr port0 \<Rightarrow>
              Inr (hostname parsed0,
                   (case port0 of
                      None \<Rightarrow> DEFAULT_REST_PORT d
                    | Some n \<Rightarrow> if n = 0 then DEFAULT_REST_PORT d else n),
                   ca))"
        unfolding parse_node_uri_def first_def [symmetric] \<open>first = Inr p\<close> p
        by (simp only: sum.case prod.case y Let_def Inr after_prefix_never_scheme_error [OF Inr])
      then show ?thesis
        using port_of_error [of d parsed0] by (cases "port_of d parsed0") auto
    qed
  qed
qed

text \<open>
  Claim C6. The locator \<open>http://peer.example:9151\<close> is prefixed with \<open>https://\<close> before
  it is parsed, so its scheme is read as \<open>https\<close>, the scheme test passes and a result
  comes back, with \<open>http\<close> as the host name and the default port: no error is raised.
  The prefix makes the scheme \<open>https\<close> for every locator, so the error of the scheme test
  is raised for none.
\<close>

theorem parse_node_uri_http_scheme_accepted:
  "parse_node_uri d ''http://peer.example:9151''
     = Inr (Some ''http'', DEFAULT_REST_PORT d, None) \<and>
   (\<forall>uri. parse_node_uri d uri \<noteq> Inl (ValueError ''Invalid teacher scheme or protocol.''))"
proof
  show "parse_node_uri d ''http://peer.example:9151''
     = Inr (Some ''http'', DEFAULT_REST_PORT d, None)"
    by (simp add: parse_node_uri_def startswith_def urlparse_def split_scheme_def str_lower_def
        lower_char_def scheme_chars_def splitnetloc_def hostinfo_def hostname_def port_of_def
        str_partition_def str_rpartition_def)
  show "\<forall>uri. parse_node_uri d uri \<noteq> Inl (ValueError ''Invalid teacher scheme or protocol.'')"
    using parse_node_uri_never_scheme_error by blast
qed

subsection \<open>Bare host names\<close>




end
